theory Spec2Isabelle
  imports Main "HOL-Library.Word" "HOL-Library.Multiset"
begin

section \<open>The to-do list component (src/components/TodoList.tsx)\<close>

text \<open>
  The component keeps its task collection in the React state variable \<open>todos\<close> and
  changes it through three event handlers (\<open>addTodo\<close>, \<open>toggleTodo\<close>,
  \<open>deleteTodo\<close>); the list that is rendered is the derived value
  \<open>sortedAndFilteredTodos\<close>. Each handler runs to completion on the state of the
  current render, so a handler is a function from state to state.
\<close>

subsection \<open>JavaScript strings\<close>

text \<open>
  A JavaScript string is a sequence of UTF-16 code units. \<open>js\<close> writes an ASCII
  literal of the source as such a sequence.
\<close>

type_synonym code_unit = "16 word"
type_synonym jsstring = "code_unit list"

definition js :: "string \<Rightarrow> jsstring" where
  "js s = map of_char s"

text \<open>
  \<open>String.prototype.trim\<close> removes leading and trailing WhiteSpace and LineTerminator
  code points (ECMAScript: TAB, LF, VT, FF, CR, SP, NBSP, the Unicode space separators,
  LS, PS and ZWNBSP). All of them are single code units.
\<close>

definition isWhiteSpace :: "code_unit \<Rightarrow> bool" where
  "isWhiteSpace c \<longleftrightarrow>
     c = 0x0009 \<or> c = 0x000A \<or> c = 0x000B \<or> c = 0x000C \<or> c = 0x000D \<or> c = 0x0020 \<or>
     c = 0x00A0 \<or> c = 0x1680 \<or> (0x2000 \<le> c \<and> c \<le> 0x200A) \<or> c = 0x2028 \<or>
     c = 0x2029 \<or> c = 0x202F \<or> c = 0x205F \<or> c = 0x3000 \<or> c = 0xFEFF"

definition trim :: "jsstring \<Rightarrow> jsstring" where
  "trim s = rev (dropWhile isWhiteSpace (rev (dropWhile isWhiteSpace s)))"

text \<open>
  \<open>s.split(sep)\<close> for a separator of one code unit: the pieces between the
  occurrences of the separator, empty pieces included; the empty string gives one empty
  piece. \<open>piece\<close> holds the code units of the current piece, newest first.
\<close>

fun split_from :: "code_unit \<Rightarrow> jsstring \<Rightarrow> jsstring \<Rightarrow> jsstring list" where
  "split_from sep piece [] = [rev piece]"
| "split_from sep piece (c # cs) =
     (if c = sep then rev piece # split_from sep [] cs
      else split_from sep (c # piece) cs)"

definition split :: "code_unit \<Rightarrow> jsstring \<Rightarrow> jsstring list" where
  "split sep s = split_from sep [] s"

text \<open>
  \<open>pieces.join(sep)\<close>, the inverse of \<open>split\<close>. The component does not call
  it; it serves to state what \<open>split\<close> does.
\<close>

fun join :: "code_unit \<Rightarrow> jsstring list \<Rightarrow> jsstring" where
  "join sep [] = []"
| "join sep [p] = p"
| "join sep (p # ps) = p @ sep # join sep ps"

text \<open>\<open>s.includes(q)\<close>: \<open>q\<close> occurs in \<open>s\<close> at some position.\<close>

fun includes_str :: "jsstring \<Rightarrow> jsstring \<Rightarrow> bool" where
  "includes_str [] q = (q = [])"
| "includes_str (c # cs) q = (take (length q) (c # cs) = q \<or> includes_str cs q)"

text \<open>
  \<open>Date.now().toString()\<close>: the clock reading is an integral number of milliseconds,
  of magnitude far below \<open>10^21\<close>, so \<open>Number.prototype.toString\<close> yields its plain
  decimal digits, with a minus sign for a reading before 1970.
\<close>

definition digit_unit :: "nat \<Rightarrow> code_unit" where
  "digit_unit d = of_nat (48 + d)"

fun digits :: "nat \<Rightarrow> jsstring" where
  "digits n = (if n < 10 then [digit_unit n] else digits (n div 10) @ [digit_unit (n mod 10)])"

declare digits.simps [simp del]

definition number_toString :: "int \<Rightarrow> jsstring" where
  "number_toString n = (if n < 0 then 0x002D # digits (nat (- n)) else digits (nat n))"

subsection \<open>The data model\<close>

datatype priority = low | medium | high

text \<open>
  \<open>interface Todo\<close>. The fields \<open>id\<close>, \<open>text\<close> and \<open>notes\<close> are named
  \<open>id_todo\<close>, \<open>text_todo\<close> and \<open>notes_todo\<close> here. A \<open>Date\<close> is
  its time value in milliseconds (the calendar widget only hands over valid dates); the
  optional fields are options.
\<close>

record Todo =
  id_todo :: jsstring
  text_todo :: jsstring
  completed :: bool
  priority :: priority
  category :: jsstring
  dueDate :: "int option"
  notes_todo :: "jsstring option"
  tags :: "jsstring list option"

text \<open>A call of \<open>toast\<close>: title, description and the optional variant.\<close>

datatype toast = Toast (title: string) (description: string) (variant: "string option")

subsection \<open>Arrays\<close>

text \<open>
  Arrays of tasks are objects with identity: \<open>filter\<close>, \<open>map\<close> and the spread
  literal allocate a new array, \<open>sort\<close> reorders the array it is called on and returns
  that same array. The store is the list of all arrays allocated so far, an array's
  address its index. The tasks themselves are never assigned to, so they are values.
\<close>

type_synonym addr = nat
type_synonym store = "Todo list list"

definition alloc :: "Todo list \<Rightarrow> store \<Rightarrow> addr \<times> store" where
  "alloc xs h = (length h, h @ [xs])"

definition array_filter :: "(Todo \<Rightarrow> bool) \<Rightarrow> addr \<Rightarrow> store \<Rightarrow> addr \<times> store" where
  "array_filter p a h = alloc (filter p (h ! a)) h"

definition array_map :: "(Todo \<Rightarrow> Todo) \<Rightarrow> addr \<Rightarrow> store \<Rightarrow> addr \<times> store" where
  "array_map f a h = alloc (map f (h ! a)) h"

text \<open>\<open>[...xs, x]\<close>\<close>

definition array_spread_with :: "addr \<Rightarrow> Todo \<Rightarrow> store \<Rightarrow> addr \<times> store" where
  "array_spread_with a x h = alloc (h ! a @ [x]) h"

text \<open>
  \<open>Array.prototype.sort(cmp)\<close> sorts in place. ECMAScript fixes the result when the
  comparator is consistent on the elements: the stable arrangement in which \<open>a\<close> stays
  before \<open>b\<close> unless \<open>cmp(a, b) > 0\<close>. For other comparators the order is left to the
  engine; the insertion sort below is one admissible behaviour. (For a comparator given
  by a key it is the library's stable \<open>sort_key\<close>, see \<open>sort_by_sort_key\<close>.)
\<close>

fun insert_by :: "('a \<Rightarrow> 'a \<Rightarrow> int) \<Rightarrow> 'a \<Rightarrow> 'a list \<Rightarrow> 'a list" where
  "insert_by cmp x [] = [x]"
| "insert_by cmp x (y # ys) =
     (if cmp x y > 0 then y # insert_by cmp x ys else x # y # ys)"

fun sort_by :: "('a \<Rightarrow> 'a \<Rightarrow> int) \<Rightarrow> 'a list \<Rightarrow> 'a list" where
  "sort_by cmp [] = []"
| "sort_by cmp (x # xs) = insert_by cmp x (sort_by cmp xs)"

definition array_sort :: "(Todo \<Rightarrow> Todo \<Rightarrow> int) \<Rightarrow> addr \<Rightarrow> store \<Rightarrow> addr \<times> store" where
  "array_sort cmp a h = (a, h[a := sort_by cmp (h ! a)])"

subsection \<open>The component state\<close>

text \<open>
  The \<open>useState\<close> variables of \<open>TodoList\<close>; those whose name is also a field of
  \<open>Todo\<close> or a list function carry the suffix \<open>_st\<close>. \<open>todos\<close> holds the address
  of the current array. \<open>toasts\<close> records the notifications shown so far.
\<close>

record state =
  store :: store
  todos :: addr
  newTodo :: jsstring
  priority_st :: priority
  category_st :: jsstring
  filter_st :: jsstring
  searchQuery :: jsstring
  dueDate_st :: "int option"
  notes_st :: jsstring
  tags_st :: jsstring
  sortBy :: jsstring
  toasts :: "toast list"

definition init :: state where
  "init = \<lparr> store = [[]], todos = 0, newTodo = [], priority_st = medium,
     category_st = js ''personal'', filter_st = js ''all'', searchQuery = [],
     dueDate_st = None, notes_st = [], tags_st = [], sortBy = js ''date'', toasts = [] \<rparr>"

text \<open>The task collection: the array that \<open>todos\<close> refers to.\<close>

definition collection :: "state \<Rightarrow> Todo list" where
  "collection s = store s ! todos s"

text \<open>
  A JavaScript reference always refers to an object: the address in \<open>todos\<close> is
  that of an allocated array. Every run keeps this (\<open>wf_run\<close> below).
\<close>

definition wf_state :: "state \<Rightarrow> bool" where
  "wf_state s \<longleftrightarrow> todos s < length (store s)"

subsection \<open>The event handlers\<close>

text \<open>\<open>tags.split(',').map(tag => tag.trim()).filter(tag => tag !== '')\<close>\<close>

definition parse_tags :: "jsstring \<Rightarrow> jsstring list" where
  "parse_tags raw = filter (\<lambda>tag. tag \<noteq> []) (map (\<lambda>tag. trim tag) (split 0x002C raw))"

text \<open>\<open>addTodo\<close>; \<open>now\<close> is what \<open>Date.now()\<close> returns during the call.\<close>

definition addTodo :: "int \<Rightarrow> state \<Rightarrow> state" where
  "addTodo now s =
     (if trim (newTodo s) = [] then
        s\<lparr>toasts := toasts s @
             [Toast ''Error'' ''Todo text cannot be empty'' (Some ''destructive'')]\<rparr>
      else
        let todo = \<lparr> id_todo = number_toString now,
                     text_todo = newTodo s,
                     completed = False,
                     priority = priority_st s,
                     category = category_st s,
                     dueDate = dueDate_st s,
                     notes_todo = Some (notes_st s),
                     tags = Some (parse_tags (tags_st s)) \<rparr>;
            (a, h) = array_spread_with (todos s) todo (store s)
        in s\<lparr>store := h, todos := a, newTodo := [], dueDate_st := None, notes_st := [],
             tags_st := [],
             toasts := toasts s @ [Toast ''Success'' ''Todo added successfully'' None]\<rparr>)"

definition toggleTodo :: "jsstring \<Rightarrow> state \<Rightarrow> state" where
  "toggleTodo i s =
     (let (a, h) = array_map
            (\<lambda>todo. if id_todo todo = i then todo\<lparr>completed := \<not> completed todo\<rparr> else todo)
            (todos s) (store s)
      in s\<lparr>store := h, todos := a\<rparr>)"

definition deleteTodo :: "jsstring \<Rightarrow> state \<Rightarrow> state" where
  "deleteTodo i s =
     (let (a, h) = array_filter (\<lambda>todo. id_todo todo \<noteq> i) (todos s) (store s)
      in s\<lparr>store := h, todos := a,
           toasts := toasts s @ [Toast ''Success'' ''Todo deleted successfully'' None]\<rparr>)"

subsection \<open>The derived view\<close>

text \<open>The callback of the first \<open>filter\<close>: the completion filter.\<close>

definition keeps :: "jsstring \<Rightarrow> Todo \<Rightarrow> bool" where
  "keeps f todo =
     (if f = js ''active'' then \<not> completed todo
      else if f = js ''completed'' then completed todo
      else True)"

text \<open>
  The callback of the second \<open>filter\<close>: the search. \<open>toLowerCase\<close> stands for
  \<open>String.prototype.toLowerCase\<close>, the runtime's Unicode lower-casing, which is not
  part of the repository; the view takes it as a parameter. \<open>todo.tags?.some(...)\<close> is
  \<open>undefined\<close>, which counts as false, for a task without tags.
\<close>

definition matches :: "(jsstring \<Rightarrow> jsstring) \<Rightarrow> jsstring \<Rightarrow> Todo \<Rightarrow> bool" where
  "matches toLowerCase q todo =
     (includes_str (toLowerCase (text_todo todo)) (toLowerCase q) \<or>
      (case tags todo of
         None \<Rightarrow> False
       | Some ts \<Rightarrow> list_ex (\<lambda>tag. includes_str (toLowerCase tag) (toLowerCase q)) ts))"

fun priorityOrder :: "priority \<Rightarrow> int" where
  "priorityOrder high = 0"
| "priorityOrder medium = 1"
| "priorityOrder low = 2"

text \<open>
  The comparator handed to \<open>sort\<close>. The difference of two time values is computed
  exactly here; in floating point it is rounded, which keeps its sign, and \<open>sort\<close>
  looks at the sign only.
\<close>

definition compare :: "jsstring \<Rightarrow> Todo \<Rightarrow> Todo \<Rightarrow> int" where
  "compare sb a b =
     (if sb = js ''priority'' then priorityOrder (priority a) - priorityOrder (priority b)
      else case (sb = js ''date'', dueDate a, dueDate b) of
             (True, Some da, Some db) \<Rightarrow> da - db
           | _ \<Rightarrow> 0)"

text \<open>
  \<open>sortedAndFilteredTodos\<close>: the address of the resulting array and the store after
  the computation.
\<close>

definition sortedAndFilteredTodos :: "(jsstring \<Rightarrow> jsstring) \<Rightarrow> state \<Rightarrow> addr \<times> store" where
  "sortedAndFilteredTodos toLowerCase s =
     (let (a1, h1) = array_filter (keeps (filter_st s)) (todos s) (store s);
          (filtered, h2) = array_filter (matches toLowerCase (searchQuery s)) a1 h1
      in array_sort (compare (sortBy s)) filtered h2)"

text \<open>The rendered list: the contents of the resulting array.\<close>

definition view :: "(jsstring \<Rightarrow> jsstring) \<Rightarrow> state \<Rightarrow> Todo list" where
  "view toLowerCase s = (let (a, h) = sortedAndFilteredTodos toLowerCase s in h ! a)"

text \<open>
  The lower-casing of the ASCII letters, the part of \<open>toLowerCase\<close> used in the
  examples.
\<close>

definition toLowerCase_ascii :: "jsstring \<Rightarrow> jsstring" where
  "toLowerCase_ascii s = map (\<lambda>c. if 0x0041 \<le> c \<and> c \<le> 0x005A then c + 0x0020 else c) s"

subsection \<open>Runs of the component\<close>

text \<open>
  What the user can do: edit a form field, pick a filter or a sort key, submit the form,
  tick a task, delete a task. The clock reading belongs to the submit event. The events
  are more general than the page: they allow any string as filter or sort key and any id
  to be ticked or deleted, where the page offers the three filters, the two sort keys and
  the ids of the tasks shown.
\<close>

datatype event =
    SetNewTodo jsstring
  | SetPriority priority
  | SetCategory jsstring
  | SetFilter jsstring
  | SetSearchQuery jsstring
  | SetDueDate "int option"
  | SetNotes jsstring
  | SetTags jsstring
  | SetSortBy jsstring
  | Submit int
  | Toggle jsstring
  | Delete jsstring

fun step :: "state \<Rightarrow> event \<Rightarrow> state" where
  "step s (SetNewTodo v) = s\<lparr>newTodo := v\<rparr>"
| "step s (SetPriority v) = s\<lparr>priority_st := v\<rparr>"
| "step s (SetCategory v) = s\<lparr>category_st := v\<rparr>"
| "step s (SetFilter v) = s\<lparr>filter_st := v\<rparr>"
| "step s (SetSearchQuery v) = s\<lparr>searchQuery := v\<rparr>"
| "step s (SetDueDate v) = s\<lparr>dueDate_st := v\<rparr>"
| "step s (SetNotes v) = s\<lparr>notes_st := v\<rparr>"
| "step s (SetTags v) = s\<lparr>tags_st := v\<rparr>"
| "step s (SetSortBy v) = s\<lparr>sortBy := v\<rparr>"
| "step s (Submit now) = addTodo now s"
| "step s (Toggle i) = toggleTodo i s"
| "step s (Delete i) = deleteTodo i s"

definition run :: "event list \<Rightarrow> state" where
  "run evs = foldl step init evs"

text \<open>The clock readings of the submit events of a run, in order.\<close>

fun submit_times :: "event list \<Rightarrow> int list" where
  "submit_times [] = []"
| "submit_times (Submit now # evs) = now # submit_times evs"
| "submit_times (e # evs) = submit_times evs"

subsection \<open>Example runs\<close>

text \<open>
  Three tasks of different priority: the first has two tags and a due date, the second
  has neither, the third has an earlier due date and is ticked off at the end.
\<close>

definition three_tasks :: "event list" where
  "three_tasks =
     [SetNewTodo (js ''Buy milk''), SetPriority low, SetTags (js ''Urgent, home''),
      SetDueDate (Some 1700300000000), Submit 1700000000001,
      SetNewTodo (js ''Write report''), SetPriority medium, Submit 1700000000002,
      SetNewTodo (js ''Call Bob''), SetPriority high, SetDueDate (Some 1700200000000),
      Submit 1700000000003,
      Toggle (js ''1700000000003'')]"

definition buy_milk :: Todo where
  "buy_milk = \<lparr> id_todo = js ''1700000000001'', text_todo = js ''Buy milk'', completed = False,
     priority = low, category = js ''personal'', dueDate = Some 1700300000000,
     notes_todo = Some [], tags = Some [js ''Urgent'', js ''home''] \<rparr>"

definition call_bob :: Todo where
  "call_bob = \<lparr> id_todo = js ''1700000000003'', text_todo = js ''Call Bob'', completed = True,
     priority = high, category = js ''personal'', dueDate = Some 1700200000000,
     notes_todo = Some [], tags = Some [] \<rparr>"

definition write_report :: Todo where
  "write_report = \<lparr> id_todo = js ''1700000000002'', text_todo = js ''Write report'',
     completed = False, priority = medium, category = js ''personal'', dueDate = None,
     notes_todo = Some [], tags = Some [] \<rparr>"

section \<open>Basic facts\<close>

subsection \<open>The handlers and the collection\<close>

lemma collection_addTodo:
  assumes "trim (newTodo s) \<noteq> []"
  shows "collection (addTodo now s) = collection s @
    [\<lparr> id_todo = number_toString now, text_todo = newTodo s, completed = False,
       priority = priority_st s, category = category_st s, dueDate = dueDate_st s,
       notes_todo = Some (notes_st s), tags = Some (parse_tags (tags_st s)) \<rparr>]"
  using assms
  by (simp add: addTodo_def collection_def array_spread_with_def alloc_def Let_def)

lemma addTodo_rejected:
  assumes "trim (newTodo s) = []"
  shows "addTodo now s =
    s\<lparr>toasts := toasts s @ [Toast ''Error'' ''Todo text cannot be empty'' (Some ''destructive'')]\<rparr>"
  using assms by (simp add: addTodo_def)

lemma collection_toggleTodo:
  "collection (toggleTodo i s) =
     map (\<lambda>todo. if id_todo todo = i then todo\<lparr>completed := \<not> completed todo\<rparr> else todo)
       (collection s)"
  by (simp add: toggleTodo_def collection_def array_map_def alloc_def)

lemma collection_deleteTodo:
  "collection (deleteTodo i s) = filter (\<lambda>todo. id_todo todo \<noteq> i) (collection s)"
  by (simp add: deleteTodo_def collection_def array_filter_def alloc_def)

lemma collection_step:
  "collection (step s e) =
     (case e of
        Submit now \<Rightarrow>
          if trim (newTodo s) = [] then collection s
          else collection s @
            [\<lparr> id_todo = number_toString now, text_todo = newTodo s, completed = False,
               priority = priority_st s, category = category_st s, dueDate = dueDate_st s,
               notes_todo = Some (notes_st s), tags = Some (parse_tags (tags_st s)) \<rparr>]
      | Toggle i \<Rightarrow>
          map (\<lambda>todo. if id_todo todo = i then todo\<lparr>completed := \<not> completed todo\<rparr> else todo)
            (collection s)
      | Delete i \<Rightarrow> filter (\<lambda>todo. id_todo todo \<noteq> i) (collection s)
      | _ \<Rightarrow> collection s)"
proof (cases e)
  case (Submit now)
  show ?thesis
  proof (cases "trim (newTodo s) = []")
    case True
    with Submit show ?thesis by (simp add: addTodo_rejected collection_def)
  next
    case False
    with Submit show ?thesis by (simp add: collection_addTodo)
  qed
next
  case (Toggle i)
  then show ?thesis by (simp add: collection_toggleTodo)
next
  case (Delete i)
  then show ?thesis by (simp add: collection_deleteTodo)
qed (simp_all add: collection_def)

lemma ids_step_eq:
  "map id_todo (collection (step s e)) =
     (case e of
        Submit now \<Rightarrow>
          if trim (newTodo s) = [] then map id_todo (collection s)
          else map id_todo (collection s) @ [number_toString now]
      | Delete i \<Rightarrow> filter (\<lambda>j. j \<noteq> i) (map id_todo (collection s))
      | _ \<Rightarrow> map id_todo (collection s))"
  unfolding collection_step
  by (cases e) (simp_all add: filter_map comp_def)

lemma wf_addTodo: "wf_state s \<Longrightarrow> wf_state (addTodo now s)"
  by (simp add: wf_state_def addTodo_def array_spread_with_def alloc_def Let_def)

lemma wf_toggleTodo: "wf_state (toggleTodo i s)"
  by (simp add: wf_state_def toggleTodo_def array_map_def alloc_def)

lemma wf_deleteTodo: "wf_state (deleteTodo i s)"
  by (simp add: wf_state_def deleteTodo_def array_filter_def alloc_def)

lemma wf_init: "wf_state init"
  by (simp add: wf_state_def init_def)

lemma wf_step: "wf_state s \<Longrightarrow> wf_state (step s e)"
  by (cases e) (simp_all add: wf_addTodo wf_toggleTodo wf_deleteTodo, simp_all add: wf_state_def)

lemma wf_foldl: "wf_state s \<Longrightarrow> wf_state (foldl step s evs)"
  by (induction evs arbitrary: s) (simp_all add: wf_step)

lemma wf_run: "wf_state (run evs)"
  by (simp add: run_def wf_foldl wf_init)

text \<open>
  A property of tasks that every created task has and that ticking preserves holds for
  all tasks of every run.
\<close>

lemma tasks_foldl:
  assumes created: "\<And>(s :: state) now. trim (newTodo s) \<noteq> [] \<Longrightarrow>
      P \<lparr> id_todo = number_toString now, text_todo = newTodo s, completed = False,
          priority = priority_st s, category = category_st s, dueDate = dueDate_st s,
          notes_todo = Some (notes_st s), tags = Some (parse_tags (tags_st s)) \<rparr>"
    and ticked: "\<And>t. P t \<Longrightarrow> P (t\<lparr>completed := \<not> completed t\<rparr>)"
    and start: "\<forall>t \<in> set (collection s). P t"
  shows "\<forall>t \<in> set (collection (foldl step s evs)). P t"
  using start
proof (induction evs arbitrary: s)
  case Nil
  then show ?case by simp
next
  case (Cons e evs)
  have "\<forall>t \<in> set (collection (step s e)). P t"
    unfolding collection_step using Cons.prems created [of s] ticked
    by (cases e) auto
  then show ?case
    using Cons.IH by simp
qed

lemma tasks_run:
  assumes "\<And>(s :: state) now. trim (newTodo s) \<noteq> [] \<Longrightarrow>
      P \<lparr> id_todo = number_toString now, text_todo = newTodo s, completed = False,
          priority = priority_st s, category = category_st s, dueDate = dueDate_st s,
          notes_todo = Some (notes_st s), tags = Some (parse_tags (tags_st s)) \<rparr>"
    and "\<And>t. P t \<Longrightarrow> P (t\<lparr>completed := \<not> completed t\<rparr>)"
  shows "\<forall>t \<in> set (collection (run evs)). P t"
proof -
  have "collection init = []"
    by (simp add: init_def collection_def)
  then have "\<forall>t \<in> set (collection init). P t"
    by simp
  with assms show ?thesis
    unfolding run_def by (intro tasks_foldl)
qed

subsection \<open>Strings\<close>

lemma includes_str_iff: "includes_str s q \<longleftrightarrow> (\<exists>p r. s = p @ q @ r)"
proof (induction s)
  case Nil
  show ?case by auto
next
  case (Cons c cs)
  show ?case
  proof
    assume "includes_str (c # cs) q"
    then consider "take (length q) (c # cs) = q" | "includes_str cs q" by auto
    then show "\<exists>p r. c # cs = p @ q @ r"
    proof cases
      case 1
      then have "c # cs = [] @ q @ drop (length q) (c # cs)"
        by (metis append_Nil append_take_drop_id)
      then show ?thesis by blast
    next
      case 2
      then obtain p r where "cs = p @ q @ r" using Cons.IH by blast
      then have "c # cs = (c # p) @ q @ r" by simp
      then show ?thesis by blast
    qed
  next
    assume "\<exists>p r. c # cs = p @ q @ r"
    then obtain p r where pr: "c # cs = p @ q @ r" by blast
    show "includes_str (c # cs) q"
    proof (cases p)
      case Nil
      then have "take (length q) (c # cs) = q" using pr by simp
      then show ?thesis by simp
    next
      case (Cons d p')
      then have "cs = p' @ q @ r" using pr by simp
      then have "includes_str cs q" using Cons.IH by blast
      then show ?thesis by simp
    qed
  qed
qed

text \<open>
  \<open>split\<close> cuts at every separator and nowhere else: no piece contains the
  separator, and the pieces joined by the separator give the string back.
\<close>

lemma split_from_not_Nil: "split_from sep piece s \<noteq> []"
  by (induction s arbitrary: piece) simp_all

lemma join_split_from: "join sep (split_from sep piece s) = rev piece @ s"
proof (induction s arbitrary: piece)
  case Nil
  show ?case by simp
next
  case (Cons c cs)
  show ?case
  proof (cases "c = sep")
    case True
    obtain p ps where "split_from sep [] cs = p # ps"
      using split_from_not_Nil [of sep "[]" cs] by (cases "split_from sep [] cs") auto
    with True Cons.IH [of "[]"] show ?thesis by simp
  next
    case False
    with Cons.IH [of "c # piece"] show ?thesis by simp
  qed
qed

lemma split_from_no_sep:
  "sep \<notin> set piece \<Longrightarrow> p \<in> set (split_from sep piece s) \<Longrightarrow> sep \<notin> set p"
proof (induction s arbitrary: piece)
  case Nil
  then show ?case by simp
next
  case (Cons c cs)
  show ?case
  proof (cases "c = sep")
    case True
    with Cons.prems have "p = rev piece \<or> p \<in> set (split_from sep [] cs)"
      by simp
    then show ?thesis
      using Cons.prems(1) Cons.IH [of "[]"] by auto
  next
    case False
    with Cons.prems have "p \<in> set (split_from sep (c # piece) cs)"
      by simp
    moreover have "sep \<notin> set (c # piece)"
      using False Cons.prems(1) by simp
    ultimately show ?thesis
      by (rule Cons.IH [rotated])
  qed
qed

lemma join_split: "join sep (split sep s) = s"
  by (simp add: split_def join_split_from)

lemma split_no_sep: "p \<in> set (split sep s) \<Longrightarrow> sep \<notin> set p"
  using split_from_no_sep [of sep "[]" p s] by (simp add: split_def)

text \<open>
  \<open>trim\<close> takes away white space at both ends and nothing else.
\<close>

lemma trim_decomposition:
  "\<exists>l r. s = l @ trim s @ r \<and> (\<forall>c \<in> set l. isWhiteSpace c) \<and> (\<forall>c \<in> set r. isWhiteSpace c)"
proof -
  let ?l = "takeWhile isWhiteSpace s"
  let ?m = "dropWhile isWhiteSpace s"
  let ?r = "rev (takeWhile isWhiteSpace (rev ?m))"
  have "rev ?m = takeWhile isWhiteSpace (rev ?m) @ dropWhile isWhiteSpace (rev ?m)"
    by simp
  then have "?m = trim s @ ?r"
    unfolding trim_def by (metis rev_append rev_rev_ident)
  then have "s = ?l @ trim s @ ?r"
    by (metis takeWhile_dropWhile_id)
  moreover have "\<forall>c \<in> set ?l. isWhiteSpace c"
    by (auto dest: set_takeWhileD)
  moreover have "\<forall>c \<in> set ?r. isWhiteSpace c"
    by (auto dest: set_takeWhileD)
  ultimately show ?thesis by blast
qed

lemma trim_ends:
  "trim s \<noteq> [] \<Longrightarrow> \<not> isWhiteSpace (hd (trim s)) \<and> \<not> isWhiteSpace (last (trim s))"
proof -
  assume ne: "trim s \<noteq> []"
  let ?m = "dropWhile isWhiteSpace s"
  let ?k = "dropWhile isWhiteSpace (rev ?m)"
  have k: "?k \<noteq> []" using ne by (simp add: trim_def)
  then have "\<not> isWhiteSpace (hd ?k)"
    by (rule hd_dropWhile)
  then have last_ok: "\<not> isWhiteSpace (last (trim s))"
    using k by (simp add: trim_def last_rev)
  have m: "?m \<noteq> []"
  proof
    assume empty: "?m = []"
    have "?k = []" unfolding empty by simp
    with k show False by simp
  qed
  then have hd_m: "\<not> isWhiteSpace (hd ?m)"
    by (rule hd_dropWhile)
  obtain r where "?m = trim s @ r"
    by (metis trim_def append_take_drop_id rev_append rev_rev_ident takeWhile_dropWhile_id)
  with ne have "hd (trim s) = hd ?m" by simp
  with hd_m last_ok show ?thesis by simp
qed

lemma trim_Nil_iff: "trim s = [] \<longleftrightarrow> (\<forall>c \<in> set s. isWhiteSpace c)"
proof
  assume "trim s = []"
  then have all: "\<forall>c \<in> set (dropWhile isWhiteSpace s). isWhiteSpace c"
    by (simp add: trim_def)
  have "dropWhile isWhiteSpace s = []"
  proof (rule ccontr)
    assume ne: "dropWhile isWhiteSpace s \<noteq> []"
    then have "\<not> isWhiteSpace (hd (dropWhile isWhiteSpace s))"
      by (rule hd_dropWhile)
    moreover have "hd (dropWhile isWhiteSpace s) \<in> set (dropWhile isWhiteSpace s)"
      using ne by (rule hd_in_set)
    ultimately show False using all by blast
  qed
  then show "\<forall>c \<in> set s. isWhiteSpace c"
    by simp
next
  assume "\<forall>c \<in> set s. isWhiteSpace c"
  then have empty: "dropWhile isWhiteSpace s = []"
    by simp
  show "trim s = []"
    unfolding trim_def empty by simp
qed

lemma parse_tags_no_empty: "[] \<notin> set (parse_tags raw)"
  by (simp add: parse_tags_def)

lemma js_active_completed: "js ''active'' \<noteq> js ''completed''"
  by (simp add: js_def)

lemma js_date_priority: "js ''date'' \<noteq> js ''priority''"
  by (simp add: js_def)

subsection \<open>The decimal representation of the clock reading\<close>

lemma digit_unit_inj: "a < 10 \<Longrightarrow> b < 10 \<Longrightarrow> digit_unit a = digit_unit b \<Longrightarrow> a = b"
  unfolding digit_unit_def
  by (simp add: word_of_nat_eq_iff take_bit_nat_eq_self)

lemma digit_unit_not_minus: "d < 10 \<Longrightarrow> digit_unit d \<noteq> 0x002D"
proof -
  assume "d < 10"
  then have "take_bit 16 (48 + d) = 48 + d"
    by (simp add: take_bit_nat_eq_self)
  moreover have "(0x002D :: code_unit) = of_nat 45"
    by simp
  ultimately show ?thesis
    unfolding digit_unit_def by (simp only: word_of_nat_eq_iff) simp
qed

lemma digits_not_Nil: "digits n \<noteq> []"
  by (subst digits.simps) simp

lemma digits_inj: "digits m = digits n \<Longrightarrow> m = n"
proof (induction m arbitrary: n rule: digits.induct)
  case (1 m)
  show ?case
  proof (cases "m < 10")
    case small_m: True
    show ?thesis
    proof (cases "n < 10")
      case True
      with small_m "1.prems" show ?thesis
        by (simp add: digits.simps [of m] digits.simps [of n] digit_unit_inj)
    next
      case False
      with small_m "1.prems" digits_not_Nil [of "n div 10"] show ?thesis
        by (simp add: digits.simps [of m] digits.simps [of n])
    qed
  next
    case big_m: False
    show ?thesis
    proof (cases "n < 10")
      case True
      with big_m "1.prems" digits_not_Nil [of "m div 10"] show ?thesis
        by (simp add: digits.simps [of m] digits.simps [of n])
    next
      case False
      with big_m "1.prems" have "digits (m div 10) = digits (n div 10)"
        and "digit_unit (m mod 10) = digit_unit (n mod 10)"
        by (simp_all add: digits.simps [of m] digits.simps [of n])
      then have "m div 10 = n div 10" and "m mod 10 = n mod 10"
        using "1.IH" big_m by (simp_all add: digit_unit_inj)
      then show ?thesis
        by (metis div_mult_mod_eq)
    qed
  qed
qed

lemma digits_hd_not_minus: "hd (digits n) \<noteq> 0x002D"
proof (induction n rule: digits.induct)
  case (1 n)
  show ?case
  proof (cases "n < 10")
    case True
    then show ?thesis by (simp add: digits.simps [of n] digit_unit_not_minus)
  next
    case False
    then show ?thesis
      using "1.IH" digits_not_Nil [of "n div 10"] by (simp add: digits.simps [of n])
  qed
qed

lemma number_toString_inj: "number_toString m = number_toString n \<Longrightarrow> m = n"
proof -
  assume eq: "number_toString m = number_toString n"
  have neg_pos: "0x002D # digits a \<noteq> digits b" for a b
    using digits_hd_not_minus [of b] by (metis list.sel(1))
  show ?thesis
  proof (cases "m < 0")
    case mneg: True
    show ?thesis
    proof (cases "n < 0")
      case True
      with mneg eq have "nat (- m) = nat (- n)"
        by (simp add: number_toString_def digits_inj)
      with mneg True show ?thesis by simp
    next
      case False
      with mneg eq neg_pos show ?thesis by (simp add: number_toString_def)
    qed
  next
    case mpos: False
    show ?thesis
    proof (cases "n < 0")
      case True
      with mpos eq neg_pos [of "nat (- n)" "nat m"] show ?thesis
        by (simp add: number_toString_def)
    next
      case False
      with mpos eq have "nat m = nat n"
        by (simp add: number_toString_def digits_inj)
      with mpos False show ?thesis by simp
    qed
  qed
qed

subsection \<open>Sorting\<close>

lemma mset_insert_by: "mset (insert_by cmp x ys) = add_mset x (mset ys)"
  by (induction ys) simp_all

lemma mset_sort_by: "mset (sort_by cmp xs) = mset xs"
  by (induction xs) (simp_all add: mset_insert_by)

lemma set_sort_by: "set (sort_by cmp xs) = set xs"
  using mset_sort_by [of cmp xs] by (metis set_mset_mset)

lemma insert_by_insort_key:
  assumes "\<forall>y\<in>set ys. (cmp x y > 0) = (f y < f x)"
  shows "insert_by cmp x ys = insort_key f x ys"
  using assms by (induction ys) (auto simp: not_less)

lemma sort_by_sort_key:
  fixes f :: "'a \<Rightarrow> int"
  assumes "\<forall>x\<in>set xs. \<forall>y\<in>set xs. (cmp x y > 0) = (f y < f x)"
  shows "sort_by cmp xs = sort_key f xs"
  using assms
proof (induction xs)
  case Nil
  show ?case by simp
next
  case (Cons x xs)
  have "sort_by cmp xs = sort_key f xs"
    using Cons by simp
  moreover have "\<forall>y\<in>set (sort_key f xs). (cmp x y > 0) = (f y < f x)"
    using Cons.prems by simp
  ultimately show ?case
    by (simp add: insert_by_insort_key)
qed

subsection \<open>The view\<close>

lemma view_eq:
  "view lc s = sort_by (compare (sortBy s))
          (filter (matches lc (searchQuery s)) (filter (keeps (filter_st s)) (collection s)))"
  by (simp add: view_def sortedAndFilteredTodos_def array_filter_def array_sort_def alloc_def
      collection_def nth_append)

text \<open>The view has every task it keeps as often as the collection has it.\<close>

lemma view_mset:
  "mset (view lc s) =
     filter_mset (\<lambda>x. keeps (filter_st s) x \<and> matches lc (searchQuery s) x) (mset (collection s))"
  by (simp add: view_eq mset_sort_by conj_commute)

lemma view_store_old:
  assumes "a < length (store s)"
  shows "snd (sortedAndFilteredTodos lc s) ! a = store s ! a"
  using assms
  by (simp add: sortedAndFilteredTodos_def array_filter_def array_sort_def alloc_def nth_append)

lemma view_store_prefix:
  "take (length (store s)) (snd (sortedAndFilteredTodos lc s)) = store s"
  by (simp add: sortedAndFilteredTodos_def array_filter_def array_sort_def alloc_def)

lemma keeps_iff:
  "keeps f t \<longleftrightarrow> (f = js ''active'' \<longrightarrow> \<not> completed t) \<and> (f = js ''completed'' \<longrightarrow> completed t)"
  using js_active_completed by (auto simp: keeps_def)

lemma matches_iff:
  "matches lc q t \<longleftrightarrow>
     (\<exists>p r. lc (text_todo t) = p @ lc q @ r) \<or>
     (\<exists>ts tag p r. tags t = Some ts \<and> tag \<in> set ts \<and> lc tag = p @ lc q @ r)"
  by (auto simp: matches_def includes_str_iff list_ex_iff split: option.splits)

subsection \<open>Ids in runs\<close>

lemma distinct_ids_foldl:
  assumes "distinct (map id_todo (collection s))"
    and "distinct (submit_times evs)"
    and "\<forall>n \<in> set (submit_times evs). number_toString n \<notin> set (map id_todo (collection s))"
  shows "distinct (map id_todo (collection (foldl step s evs)))"
  using assms
proof (induction evs arbitrary: s)
  case Nil
  then show ?case by simp
next
  case (Cons e evs)
  let ?ids = "map id_todo (collection s)"
  let ?ids' = "map id_todo (collection (step s e))"
  have "distinct ?ids' \<and> distinct (submit_times evs) \<and>
      (\<forall>n \<in> set (submit_times evs). number_toString n \<notin> set ?ids')"
  proof (cases e)
    case (Submit now)
    then have times: "submit_times (e # evs) = now # submit_times evs"
      by simp
    with Cons.prems have fresh: "number_toString now \<notin> set ?ids"
      and later: "now \<notin> set (submit_times evs)" "distinct (submit_times evs)"
      and others: "\<forall>n \<in> set (submit_times evs). number_toString n \<notin> set ?ids"
      by simp_all
    have "number_toString n \<noteq> number_toString now" if "n \<in> set (submit_times evs)" for n
      using that later(1) number_toString_inj by blast
    with fresh later others Cons.prems(1) Submit show ?thesis
      unfolding ids_step_eq by auto
  next
    case (Delete i)
    with Cons.prems show ?thesis
      unfolding ids_step_eq by (auto simp: distinct_filter)
  next
    case (Toggle i)
    with Cons.prems show ?thesis
      unfolding ids_step_eq by simp
  qed (use Cons.prems in \<open>simp_all add: collection_def\<close>)
  then show ?case
    using Cons.IH [of "step s e"] by simp
qed

lemma distinct_ids_run:
  "distinct (submit_times evs) \<Longrightarrow> distinct (map id_todo (collection (run evs)))"
  unfolding run_def
  by (rule distinct_ids_foldl) (simp_all add: init_def collection_def)





subsection \<open>The example runs evaluated\<close>

lemmas eval_defs = run_def init_def addTodo_def toggleTodo_def deleteTodo_def array_spread_with_def
  array_map_def array_filter_def alloc_def trim_def isWhiteSpace_def js_def
  number_toString_def digits.simps digit_unit_def parse_tags_def split_def Let_def

lemma number_toString_example: "number_toString 1700000000000 = js ''1700000000000''"
  by (simp add: number_toString_def digits.simps digit_unit_def js_def)

lemma trim_example: "trim (js ''Buy milk'') = js ''Buy milk''"
  by (simp add: js_def trim_def isWhiteSpace_def)

lemma trim_buy_milk: "trim (js ''  Buy milk '') = js ''Buy milk''"
  by (simp add: js_def trim_def isWhiteSpace_def)

lemma parse_tags_empty: "parse_tags [] = []"
  by (simp add: parse_tags_def split_def trim_def)

lemma parse_tags_example: "parse_tags (js ''a, b ,, c'') = [js ''a'', js ''b'', js ''c'']"
  by (simp add: parse_tags_def js_def split_def trim_def isWhiteSpace_def)

lemma one_task:
  "collection (run [SetNewTodo (js ''Buy milk''), Submit 1700000000000]) =
     [\<lparr> id_todo = js ''1700000000000'', text_todo = js ''Buy milk'', completed = False,
        priority = medium, category = js ''personal'', dueDate = None,
        notes_todo = Some [], tags = Some [] \<rparr>]"
proof -
  let ?s = "init\<lparr>newTodo := js ''Buy milk''\<rparr>"
  have unfold: "run [SetNewTodo (js ''Buy milk''), Submit 1700000000000] = addTodo 1700000000000 ?s"
    by (simp add: run_def)
  have filled: "trim (newTodo ?s) \<noteq> []"
    by (simp add: trim_example) (simp add: js_def)
  have fields: "collection ?s = []" "priority_st ?s = medium" "category_st ?s = js ''personal''"
    "dueDate_st ?s = None" "notes_st ?s = []" "tags_st ?s = []" "newTodo ?s = js ''Buy milk''"
    by (simp_all add: init_def collection_def)
  show ?thesis
    unfolding unfold collection_addTodo [OF filled]
    by (simp only: fields number_toString_example parse_tags_empty append_Nil)
qed

lemma run_three_tasks:
  "run three_tasks =
     \<lparr> store = [[], [buy_milk], [buy_milk, write_report],
                 [buy_milk, write_report, call_bob\<lparr>completed := False\<rparr>],
                 [buy_milk, write_report, call_bob]],
       todos = 4, newTodo = [], priority_st = high, category_st = js ''personal'',
       filter_st = js ''all'', searchQuery = [], dueDate_st = None, notes_st = [],
       tags_st = [], sortBy = js ''date'',
       toasts = [Toast ''Success'' ''Todo added successfully'' None,
                 Toast ''Success'' ''Todo added successfully'' None,
                 Toast ''Success'' ''Todo added successfully'' None] \<rparr>"
  by (simp add: three_tasks_def buy_milk_def call_bob_def write_report_def eval_defs)

lemma collection_three_tasks: "collection (run three_tasks) = [buy_milk, write_report, call_bob]"
  by (simp add: run_three_tasks collection_def)

lemmas view_defs = keeps_def matches_def compare_def toLowerCase_ascii_def js_def
  buy_milk_def call_bob_def write_report_def

lemma view_three_by_priority:
  "view toLowerCase_ascii (step (run three_tasks) (SetSortBy (js ''priority''))) =
     [call_bob, write_report, buy_milk]"
proof -
  let ?s = "step (run three_tasks) (SetSortBy (js ''priority''))"
  have fields: "collection ?s = [buy_milk, write_report, call_bob]" "filter_st ?s = js ''all''"
    "searchQuery ?s = []" "sortBy ?s = js ''priority''"
    by (simp_all add: run_three_tasks collection_def)
  show ?thesis
    unfolding view_eq fields by (simp add: view_defs)
qed

lemma view_three_active_urg:
  "view toLowerCase_ascii
     (step (step (run three_tasks) (SetFilter (js ''active''))) (SetSearchQuery (js ''urg''))) =
     [buy_milk]"
proof -
  let ?s = "step (step (run three_tasks) (SetFilter (js ''active''))) (SetSearchQuery (js ''urg''))"
  have fields: "collection ?s = [buy_milk, write_report, call_bob]" "filter_st ?s = js ''active''"
    "searchQuery ?s = js ''urg''" "sortBy ?s = js ''date''"
    by (simp_all add: run_three_tasks collection_def)
  show ?thesis
    unfolding view_eq fields by (simp add: view_defs)
qed

lemma view_three_completed:
  "view toLowerCase_ascii (step (run three_tasks) (SetFilter (js ''completed''))) = [call_bob]"
proof -
  let ?s = "step (run three_tasks) (SetFilter (js ''completed''))"
  have fields: "collection ?s = [buy_milk, write_report, call_bob]"
    "filter_st ?s = js ''completed''" "searchQuery ?s = []" "sortBy ?s = js ''date''"
    by (simp_all add: run_three_tasks collection_def)
  show ?thesis
    unfolding view_eq fields by (simp add: view_defs)
qed

lemma collection_two_dated:
  "collection (step (run three_tasks) (Delete (js ''1700000000002''))) = [buy_milk, call_bob]"
  by (simp add: collection_deleteTodo collection_three_tasks)
    (simp add: buy_milk_def call_bob_def write_report_def js_def)

lemma view_two_dated:
  "view toLowerCase_ascii (step (run three_tasks) (Delete (js ''1700000000002''))) =
     [call_bob, buy_milk]"
proof -
  let ?s = "step (run three_tasks) (Delete (js ''1700000000002''))"
  have fields: "sortBy ?s = js ''date''" "filter_st ?s = js ''all''" "searchQuery ?s = []"
    by (simp_all add: deleteTodo_def array_filter_def alloc_def run_three_tasks)
  show ?thesis
    unfolding view_eq fields collection_two_dated by (simp add: view_defs)
qed

text \<open>
  With the sort key \<open>date\<close> a task without due date is not moved behind the dated
  ones. As it compares equal to both of them, the insertion sort also leaves the dated
  tasks on its two sides as they are, the later date first.
\<close>

lemma view_three_by_date:
  "view toLowerCase_ascii (run three_tasks) = [buy_milk, write_report, call_bob]"
proof -
  have fields: "sortBy (run three_tasks) = js ''date''" "filter_st (run three_tasks) = js ''all''"
    "searchQuery (run three_tasks) = []"
    by (simp_all add: run_three_tasks)
  show ?thesis
    unfolding view_eq fields collection_three_tasks by (simp add: view_defs)
qed


section \<open>The claims\<close>

subsection \<open>Creating a task\<close>

text \<open>
  C1. A successful \<open>addTodo\<close> appends one task at the end of the collection, not
  completed, whose id is the decimal string of the clock reading of the call. The claim
  that this id is always fresh fails: two submits with the same clock reading give two
  tasks with the same id.
\<close>

theorem fresh_id_counterexample:
  "map id_todo (collection (run
      [SetNewTodo (js ''Buy milk''), Submit 1700000000000,
       SetNewTodo (js ''Buy milk''), Submit 1700000000000])) =
     [js ''1700000000000'', js ''1700000000000''] \<and>
   \<not> distinct (map id_todo (collection (run
      [SetNewTodo (js ''Buy milk''), Submit 1700000000000,
       SetNewTodo (js ''Buy milk''), Submit 1700000000000])))"
proof -
  let ?s1 = "run [SetNewTodo (js ''Buy milk''), Submit 1700000000000]"
  let ?s2 = "step ?s1 (SetNewTodo (js ''Buy milk''))"
  have unfold: "run [SetNewTodo (js ''Buy milk''), Submit 1700000000000,
       SetNewTodo (js ''Buy milk''), Submit 1700000000000] = step ?s2 (Submit 1700000000000)"
    by (simp add: run_def)
  have filled: "trim (newTodo ?s2) \<noteq> []"
    by (simp add: trim_example) (simp add: js_def)
  have "map id_todo (collection ?s2) = [js ''1700000000000'']"
    using one_task by (simp add: collection_def)
  then have "map id_todo (collection (step ?s2 (Submit 1700000000000))) =
      [js ''1700000000000'', js ''1700000000000'']"
    unfolding ids_step_eq using filled by (simp add: number_toString_example)
  then show ?thesis
    unfolding unfold by simp
qed

text \<open>
  C1, amended. A successful \<open>addTodo\<close> appends one task at the end of the
  collection, not completed, whose id is the decimal string of the clock reading of the
  call. If no task of the collection has that string as id, the ids stay pairwise
  distinct. Two successive successful submits at different clock readings give different
  ids, whatever the texts; and in a run whose submits all happen at different clock
  readings no two tasks of the collection share an id.
\<close>

theorem addTodo_appends_task:
  assumes "trim (newTodo s) \<noteq> []"
  shows "collection (addTodo now s) = collection s @ [last (collection (addTodo now s))] \<and>
         \<not> completed (last (collection (addTodo now s))) \<and>
         id_todo (last (collection (addTodo now s))) = number_toString now \<and>
         (distinct (map id_todo (collection s)) \<and>
          number_toString now \<notin> set (map id_todo (collection s)) \<longrightarrow>
            distinct (map id_todo (collection (addTodo now s)))) \<and>
         (trim x \<noteq> [] \<and> now' \<noteq> now \<longrightarrow>
            id_todo (last (collection (addTodo now' (step (addTodo now s) (SetNewTodo x))))) \<noteq>
            id_todo (last (collection (addTodo now s)))) \<and>
         (distinct (submit_times evs) \<longrightarrow> distinct (map id_todo (collection (run evs))))"
proof -
  note appended = collection_addTodo [OF assms, of now]
  have shape: "collection (addTodo now s) = collection s @ [last (collection (addTodo now s))]"
    "\<not> completed (last (collection (addTodo now s)))"
    "id_todo (last (collection (addTodo now s))) = number_toString now"
    unfolding appended by simp_all
  have fresh: "distinct (map id_todo (collection (addTodo now s)))"
    if "distinct (map id_todo (collection s))"
      "number_toString now \<notin> set (map id_todo (collection s))"
    using that unfolding appended by auto
  have successive: "id_todo (last (collection (addTodo now' (step (addTodo now s) (SetNewTodo x))))) \<noteq>
      id_todo (last (collection (addTodo now s)))"
    if "trim x \<noteq> []" "now' \<noteq> now"
  proof -
    have "trim (newTodo (step (addTodo now s) (SetNewTodo x))) \<noteq> []"
      using that(1) by simp
    then have "id_todo (last (collection (addTodo now' (step (addTodo now s) (SetNewTodo x))))) =
        number_toString now'"
      by (simp add: collection_addTodo del: step.simps)
    with that(2) shape(3) number_toString_inj show ?thesis
      by auto
  qed
  from shape fresh successive distinct_ids_run [of evs] show ?thesis
    by blast
qed

theorem addTodo_appends_task_witness:
  "trim (newTodo (run [SetNewTodo (js ''Buy milk'')])) \<noteq> [] \<and>
   collection (addTodo 1700000000000 (run [SetNewTodo (js ''Buy milk'')])) =
     collection (run [SetNewTodo (js ''Buy milk'')]) @
     [last (collection (addTodo 1700000000000 (run [SetNewTodo (js ''Buy milk'')])))] \<and>
   id_todo (last (collection (addTodo 1700000000000 (run [SetNewTodo (js ''Buy milk'')])))) =
     js ''1700000000000'' \<and>
   distinct (map id_todo (collection (run [SetNewTodo (js ''Buy milk'')]))) \<and>
   number_toString 1700000000000 \<notin>
     set (map id_todo (collection (run [SetNewTodo (js ''Buy milk'')]))) \<and>
   distinct (map id_todo (collection (addTodo 1700000000000 (run [SetNewTodo (js ''Buy milk'')])))) \<and>
   trim (js ''Buy milk'') \<noteq> [] \<and> (1700000000001 :: int) \<noteq> 1700000000000 \<and>
   id_todo (last (collection (addTodo 1700000000001
      (step (addTodo 1700000000000 (run [SetNewTodo (js ''Buy milk'')]))
         (SetNewTodo (js ''Buy milk'')))))) \<noteq> js ''1700000000000'' \<and>
   distinct (submit_times three_tasks) \<and>
   distinct (map id_todo (collection (run three_tasks)))"
proof -
  let ?s = "run [SetNewTodo (js ''Buy milk'')]"
  have filled: "trim (newTodo ?s) \<noteq> []" and nonblank: "trim (js ''Buy milk'') \<noteq> []"
    by (simp_all add: run_def trim_example) (simp_all add: js_def)
  have empty: "collection ?s = []"
    by (simp add: run_def init_def collection_def)
  have times: "distinct (submit_times three_tasks)"
    by (simp add: three_tasks_def)
  have clock: "(1700000000001 :: int) \<noteq> 1700000000000"
    by simp
  note claim = addTodo_appends_task [OF filled, of 1700000000000 "js ''Buy milk''"
      1700000000001 three_tasks]
  from claim have appended: "collection (addTodo 1700000000000 ?s) =
      collection ?s @ [last (collection (addTodo 1700000000000 ?s))]"
    and new_id: "id_todo (last (collection (addTodo 1700000000000 ?s))) = js ''1700000000000''"
    by (simp_all add: number_toString_example)
  have no_clash: "number_toString 1700000000000 \<notin> set (map id_todo (collection ?s))"
    and distinct_before: "distinct (map id_todo (collection ?s))"
    unfolding empty by simp_all
  with claim have distinct_after: "distinct (map id_todo (collection (addTodo 1700000000000 ?s)))"
    by blast
  from claim nonblank clock
  have "id_todo (last (collection (addTodo 1700000000001
      (step (addTodo 1700000000000 ?s) (SetNewTodo (js ''Buy milk'')))))) \<noteq>
      id_todo (last (collection (addTodo 1700000000000 ?s)))"
    by blast
  then have successive: "id_todo (last (collection (addTodo 1700000000001
      (step (addTodo 1700000000000 ?s) (SetNewTodo (js ''Buy milk'')))))) \<noteq> js ''1700000000000''"
    unfolding new_id .
  from claim times have run_ids: "distinct (map id_todo (collection (run three_tasks)))"
    by blast
  from filled appended new_id distinct_before no_clash distinct_after nonblank clock successive
    times run_ids
  show ?thesis
    by (intro conjI)
qed

text \<open>
  C2. When the text field is empty or consists of white space only, \<open>addTodo\<close>
  changes nothing but the notifications: the store, the reference \<open>todos\<close> and
  so the collection are as before, every form field keeps its value, and one error toast
  with the message "Todo text cannot be empty" is shown.
\<close>

theorem addTodo_empty_text_rejected:
  assumes "trim (newTodo s) = []"
  shows "collection (addTodo now s) = collection s \<and>
         store (addTodo now s) = store s \<and>
         todos (addTodo now s) = todos s \<and>
         addTodo now s = s\<lparr>toasts := toasts (addTodo now s)\<rparr> \<and>
         toasts (addTodo now s) =
           toasts s @ [Toast ''Error'' ''Todo text cannot be empty'' (Some ''destructive'')]"
  using assms by (simp add: addTodo_rejected collection_def)

theorem addTodo_empty_text_rejected_witness:
  "trim (newTodo (run [SetNewTodo (js ''   '')])) = [] \<and>
   collection (addTodo 1700000000000 (run [SetNewTodo (js ''   '')])) = [] \<and>
   toasts (addTodo 1700000000000 (run [SetNewTodo (js ''   '')])) =
     [Toast ''Error'' ''Todo text cannot be empty'' (Some ''destructive'')]"
proof -
  have blank: "trim (newTodo (run [SetNewTodo (js ''   '')])) = []"
    by (simp add: run_def init_def js_def trim_def isWhiteSpace_def)
  show ?thesis
    using blank addTodo_empty_text_rejected [OF blank, of 1700000000000]
    by (simp add: run_def init_def collection_def)
qed

subsection \<open>Sorting and filtering\<close>

text \<open>
  C3. With the sort key \<open>date\<close> the comparator returns the difference of the two
  time values when both tasks have a due date, so the earlier one goes first, and 0, as
  for equal tasks, as soon as one of the two has none. When every task of the collection
  has a due date, the view is in ascending order of due date.
\<close>

theorem view_by_date:
  assumes "sortBy s = js ''date''"
  shows "(\<forall>a b da db. dueDate a = Some da \<and> dueDate b = Some db \<longrightarrow>
            compare (sortBy s) a b = da - db) \<and>
         (\<forall>a b. dueDate a = None \<or> dueDate b = None \<longrightarrow> compare (sortBy s) a b = 0) \<and>
         ((\<forall>t \<in> set (collection s). dueDate t \<noteq> None) \<longrightarrow>
            sorted_wrt (\<lambda>a b. the (dueDate a) \<le> the (dueDate b)) (view lc s))"
proof -
  have not_priority: "sortBy s \<noteq> js ''priority''"
    using assms js_date_priority by simp
  have both: "compare (sortBy s) a b = da - db"
    if "dueDate a = Some da" "dueDate b = Some db" for a b da db
    using that assms not_priority by (simp add: compare_def)
  have either: "compare (sortBy s) a b = 0" if "dueDate a = None \<or> dueDate b = None" for a b
    using that not_priority by (auto simp: compare_def split: option.splits bool.splits)
  have ascending: "sorted_wrt (\<lambda>a b. the (dueDate a) \<le> the (dueDate b)) (view lc s)"
    if dated: "\<forall>t \<in> set (collection s). dueDate t \<noteq> None"
  proof -
    let ?time = "\<lambda>x. the (dueDate x)"
    let ?xs = "filter (matches lc (searchQuery s)) (filter (keeps (filter_st s)) (collection s))"
    have "(compare (sortBy s) x y > 0) = (?time y < ?time x)" if "x \<in> set ?xs" "y \<in> set ?xs" for x y
    proof -
      from that have "x \<in> set (collection s)" "y \<in> set (collection s)"
        by simp_all
      with dated have "dueDate x \<noteq> None" "dueDate y \<noteq> None"
        by blast+
      then obtain dx dy where "dueDate x = Some dx" "dueDate y = Some dy"
        by blast
      then show ?thesis by (simp add: both)
    qed
    then have "view lc s = sort_key ?time ?xs"
      unfolding view_eq by (intro sort_by_sort_key) blast
    moreover have "sorted (map ?time (sort_key ?time ?xs))"
      by (rule sorted_sort_key)
    ultimately show ?thesis
      by (simp add: sorted_map)
  qed
  from both either ascending show ?thesis
    by blast
qed

theorem view_by_date_witness:
  "sortBy (step (run three_tasks) (Delete (js ''1700000000002''))) = js ''date'' \<and>
   None \<notin> set (map dueDate (collection (step (run three_tasks) (Delete (js ''1700000000002''))))) \<and>
   view toLowerCase_ascii (step (run three_tasks) (Delete (js ''1700000000002''))) =
     [call_bob, buy_milk] \<and>
   dueDate call_bob = Some 1700200000000 \<and> dueDate buy_milk = Some 1700300000000 \<and>
   compare (js ''date'') call_bob buy_milk = - 100000000 \<and>
   dueDate write_report = None \<and>
   compare (js ''date'') buy_milk write_report = 0 \<and>
   compare (js ''date'') write_report call_bob = 0"
proof -
  have key: "sortBy (step (run three_tasks) (Delete (js ''1700000000002''))) = js ''date''"
    by (simp add: deleteTodo_def array_filter_def alloc_def run_three_tasks)
  have dated: "\<forall>t \<in> set (collection (step (run three_tasks) (Delete (js ''1700000000002'')))).
      dueDate t \<noteq> None"
    unfolding collection_two_dated by (simp add: buy_milk_def call_bob_def)
  show ?thesis
    using key dated view_by_date [OF key, of toLowerCase_ascii]
    by (simp add: view_two_dated collection_two_dated del: step.simps)
      (simp add: buy_milk_def call_bob_def write_report_def compare_def js_def)
qed

text \<open>
  C4. With the sort key \<open>priority\<close> the view is ordered by rank: a task of higher
  priority (smaller rank) is never at a later position than one of lower priority. The
  tasks of one priority are in the order they have in the filtered collection.
\<close>

theorem view_by_priority:
  assumes "sortBy s = js ''priority''"
  shows "(\<forall>i j. i < length (view lc s) \<and> j < length (view lc s) \<and>
            priorityOrder (priority (view lc s ! i)) < priorityOrder (priority (view lc s ! j))
            \<longrightarrow> i < j) \<and>
         (\<forall>p. filter (\<lambda>x. priority x = p) (view lc s) =
            filter (\<lambda>x. priority x = p)
              (filter (matches lc (searchQuery s)) (filter (keeps (filter_st s)) (collection s))))"
proof -
  let ?rank = "\<lambda>x. priorityOrder (priority x)"
  let ?xs = "filter (matches lc (searchQuery s)) (filter (keeps (filter_st s)) (collection s))"
  have "\<forall>x\<in>set ?xs. \<forall>y\<in>set ?xs. (compare (sortBy s) x y > 0) = (?rank y < ?rank x)"
    using assms by (simp add: compare_def)
  then have sorted_view: "view lc s = sort_key ?rank ?xs"
    unfolding view_eq by (rule sort_by_sort_key)
  have "sorted (map ?rank (view lc s))"
    unfolding sorted_view by (rule sorted_sort_key)
  then have ordered: "i < j" if "i < length (view lc s)" "j < length (view lc s)"
      "?rank (view lc s ! i) < ?rank (view lc s ! j)" for i j
  proof (rule_tac ccontr)
    assume "\<not> i < j"
    then have "j \<le> i" by simp
    with \<open>sorted (map ?rank (view lc s))\<close> that(1)
    have "map ?rank (view lc s) ! j \<le> map ?rank (view lc s) ! i"
      by (intro sorted_nth_mono) simp_all
    with that show False by simp
  qed
  have rank_inj: "(?rank x = priorityOrder p) = (priority x = p)" for x p
    by (cases "priority x"; cases p) simp_all
  have "filter (\<lambda>x. priority x = p) (view lc s) = filter (\<lambda>x. priority x = p) ?xs" for p
    using sort_key_stable [of ?rank "priorityOrder p" ?xs]
    by (simp only: sorted_view rank_inj)
  with ordered show ?thesis
    by blast
qed

theorem view_by_priority_witness:
  "sortBy (step (run three_tasks) (SetSortBy (js ''priority''))) = js ''priority'' \<and>
   view toLowerCase_ascii (step (run three_tasks) (SetSortBy (js ''priority''))) =
     [call_bob, write_report, buy_milk] \<and>
   priorityOrder (priority call_bob) < priorityOrder (priority write_report) \<and>
   priorityOrder (priority write_report) < priorityOrder (priority buy_milk) \<and>
   filter (\<lambda>x. priority x = high)
     (filter (matches toLowerCase_ascii
                (searchQuery (step (run three_tasks) (SetSortBy (js ''priority'')))))
        (filter (keeps (filter_st (step (run three_tasks) (SetSortBy (js ''priority'')))))
           (collection (step (run three_tasks) (SetSortBy (js ''priority'')))))) = [call_bob]"
proof -
  let ?s = "step (run three_tasks) (SetSortBy (js ''priority''))"
  have key: "sortBy ?s = js ''priority''"
    by simp
  have ranks: "priorityOrder (priority call_bob) < priorityOrder (priority write_report)"
    "priorityOrder (priority write_report) < priorityOrder (priority buy_milk)"
    by (simp_all add: buy_milk_def call_bob_def write_report_def)
  have "filter (\<lambda>x. priority x = high) (view toLowerCase_ascii ?s) = [call_bob]"
    unfolding view_three_by_priority
    by (simp add: buy_milk_def call_bob_def write_report_def)
  moreover have "filter (\<lambda>x. priority x = high) (view toLowerCase_ascii ?s) =
      filter (\<lambda>x. priority x = high)
        (filter (matches toLowerCase_ascii (searchQuery ?s))
           (filter (keeps (filter_st ?s)) (collection ?s)))"
    using view_by_priority [OF key, of toLowerCase_ascii] by blast
  ultimately show ?thesis
    using key ranks view_three_by_priority by (simp only: simp_thms)
qed

text \<open>
  C5. A task is in the view exactly when it is in the collection, the completion filter
  lets it pass (\<open>active\<close>: not completed; \<open>completed\<close>: completed; any other
  value, such as \<open>all\<close>: every task) and the lower-cased search text occurs in its
  lower-cased text or in one of its lower-cased tags. So the view for \<open>active\<close>
  has no completed task and the view for \<open>completed\<close> no uncompleted one.
\<close>

theorem view_membership:
  "(t \<in> set (view lc s) \<longleftrightarrow>
      t \<in> set (collection s) \<and>
      (filter_st s = js ''active'' \<longrightarrow> \<not> completed t) \<and>
      (filter_st s = js ''completed'' \<longrightarrow> completed t) \<and>
      ((\<exists>p r. lc (text_todo t) = p @ lc (searchQuery s) @ r) \<or>
       (\<exists>ts tag p r. tags t = Some ts \<and> tag \<in> set ts \<and> lc tag = p @ lc (searchQuery s) @ r))) \<and>
   (filter_st s = js ''active'' \<longrightarrow> (\<forall>x \<in> set (view lc s). \<not> completed x)) \<and>
   (filter_st s = js ''completed'' \<longrightarrow> (\<forall>x \<in> set (view lc s). completed x))"
proof -
  have members: "set (view lc s) =
      {x \<in> set (collection s). keeps (filter_st s) x \<and> matches lc (searchQuery s) x}"
    by (auto simp: view_eq set_sort_by)
  have "t \<in> set (view lc s) \<longleftrightarrow>
      t \<in> set (collection s) \<and>
      (filter_st s = js ''active'' \<longrightarrow> \<not> completed t) \<and>
      (filter_st s = js ''completed'' \<longrightarrow> completed t) \<and>
      ((\<exists>p r. lc (text_todo t) = p @ lc (searchQuery s) @ r) \<or>
       (\<exists>ts tag p r. tags t = Some ts \<and> tag \<in> set ts \<and> lc tag = p @ lc (searchQuery s) @ r))"
    unfolding members by (simp only: mem_Collect_eq keeps_iff matches_iff) blast
  moreover have "\<forall>x \<in> set (view lc s). \<not> completed x" if "filter_st s = js ''active''"
    using that by (simp add: members keeps_iff)
  moreover have "\<forall>x \<in> set (view lc s). completed x" if "filter_st s = js ''completed''"
    using that by (simp add: members keeps_iff)
  ultimately show ?thesis
    by blast
qed

theorem view_membership_witness:
  "filter_st (step (step (run three_tasks) (SetFilter (js ''active''))) (SetSearchQuery (js ''urg'')))
     = js ''active'' \<and>
   buy_milk \<in> set (view toLowerCase_ascii
     (step (step (run three_tasks) (SetFilter (js ''active''))) (SetSearchQuery (js ''urg'')))) \<and>
   \<not> completed buy_milk \<and>
   tags buy_milk = Some [js ''Urgent'', js ''home''] \<and>
   toLowerCase_ascii (js ''Urgent'') = [] @ toLowerCase_ascii (js ''urg'') @ js ''ent'' \<and>
   filter_st (step (run three_tasks) (SetFilter (js ''completed''))) = js ''completed'' \<and>
   call_bob \<in> set (view toLowerCase_ascii (step (run three_tasks) (SetFilter (js ''completed'')))) \<and>
   completed call_bob"
  using view_membership [of buy_milk toLowerCase_ascii
      "step (step (run three_tasks) (SetFilter (js ''active''))) (SetSearchQuery (js ''urg''))"]
    view_membership [of call_bob toLowerCase_ascii
      "step (run three_tasks) (SetFilter (js ''completed''))"]
  by (simp add: view_three_active_urg view_three_completed del: step.simps)
    (simp add: buy_milk_def call_bob_def toLowerCase_ascii_def js_def)

text \<open>
  C6. Computing the view changes no array that existed before: the array that
  \<open>todos\<close> refers to, hence the collection, holds the same tasks in the same order
  afterwards. (The view takes the component state as an argument and returns none, so
  no state variable is assigned.)
\<close>

theorem view_leaves_collection:
  assumes "wf_state s"
  shows "snd (sortedAndFilteredTodos lc s) ! todos s = collection s \<and>
         take (length (store s)) (snd (sortedAndFilteredTodos lc s)) = store s \<and>
         fst (sortedAndFilteredTodos lc s) \<noteq> todos s"
proof -
  have "fst (sortedAndFilteredTodos lc s) = Suc (length (store s))"
    by (simp add: sortedAndFilteredTodos_def array_filter_def array_sort_def alloc_def)
  with assms show ?thesis
    by (simp add: view_store_old view_store_prefix collection_def wf_state_def)
qed

theorem view_leaves_collection_witness:
  "wf_state (run [SetNewTodo (js ''Buy milk''), Submit 1700000000000]) \<and>
   snd (sortedAndFilteredTodos toLowerCase_ascii
          (run [SetNewTodo (js ''Buy milk''), Submit 1700000000000])) !
     todos (run [SetNewTodo (js ''Buy milk''), Submit 1700000000000]) =
   [\<lparr> id_todo = js ''1700000000000'', text_todo = js ''Buy milk'', completed = False,
      priority = medium, category = js ''personal'', dueDate = None,
      notes_todo = Some [], tags = Some [] \<rparr>]"
  using view_leaves_collection [OF wf_run, of toLowerCase_ascii
      "[SetNewTodo (js ''Buy milk''), Submit 1700000000000]"]
  by (simp add: wf_run one_task)

subsection \<open>Ticking and deleting\<close>

text \<open>
  C7. \<open>toggleTodo\<close> keeps the length and the order of the collection; at every
  position the task with the given id has its \<open>completed\<close> field negated and is
  otherwise the same, and a task with another id is untouched. Nothing is notified. When
  no task has the id the collection is as before, and toggling twice restores it.
\<close>

theorem toggleTodo_flips_completed:
  "length (collection (toggleTodo i s)) = length (collection s) \<and>
   (\<forall>k < length (collection s).
      collection (toggleTodo i s) ! k =
        (if id_todo (collection s ! k) = i
         then (collection s ! k)\<lparr>completed := \<not> completed (collection s ! k)\<rparr>
         else collection s ! k)) \<and>
   toasts (toggleTodo i s) = toasts s \<and>
   (i \<notin> id_todo ` set (collection s) \<longrightarrow> collection (toggleTodo i s) = collection s) \<and>
   collection (toggleTodo i (toggleTodo i s)) = collection s"
proof -
  let ?f = "\<lambda>todo. if id_todo todo = i then todo\<lparr>completed := \<not> completed todo\<rparr> else todo"
  have absent: "collection (toggleTodo i s) = collection s" if "i \<notin> id_todo ` set (collection s)"
  proof -
    have "map ?f (collection s) = map (\<lambda>todo. todo) (collection s)"
      using that by (intro map_cong) auto
    then show ?thesis by (simp add: collection_toggleTodo)
  qed
  have twice: "?f \<circ> ?f = (\<lambda>todo. todo)"
    by (rule ext) simp
  have "collection (toggleTodo i (toggleTodo i s)) = map (?f \<circ> ?f) (collection s)"
    by (simp only: collection_toggleTodo map_map)
  also have "\<dots> = collection s"
    by (simp only: twice map_ident)
  finally have involution: "collection (toggleTodo i (toggleTodo i s)) = collection s" .
  have "toasts (toggleTodo i s) = toasts s"
    by (simp add: toggleTodo_def array_map_def alloc_def)
  with absent involution show ?thesis
    by (simp add: collection_toggleTodo)
qed

theorem toggleTodo_flips_completed_witness:
  "(0::nat) < length (collection (run [SetNewTodo (js ''Buy milk''), Submit 1700000000000])) \<and>
   completed (collection (toggleTodo (js ''1700000000000'')
     (run [SetNewTodo (js ''Buy milk''), Submit 1700000000000])) ! 0) \<and>
   js ''5'' \<notin> id_todo ` set (collection (run [SetNewTodo (js ''Buy milk''), Submit 1700000000000])) \<and>
   \<not> completed (collection (toggleTodo (js ''5'')
     (run [SetNewTodo (js ''Buy milk''), Submit 1700000000000])) ! 0)"
  using toggleTodo_flips_completed [of "js ''1700000000000''"
      "run [SetNewTodo (js ''Buy milk''), Submit 1700000000000]"]
    toggleTodo_flips_completed [of "js ''5''"
      "run [SetNewTodo (js ''Buy milk''), Submit 1700000000000]"]
  by (simp add: one_task) (simp add: js_def)




subsection \<open>What is stored\<close>

text \<open>
  C9. The task stored by a successful \<open>addTodo\<close> has as tags the pieces of the tags
  field between its commas, each trimmed, without the pieces that are empty after
  trimming, in their order. The field \<open>a, b ,, c\<close> gives the tags \<open>a\<close>, \<open>b\<close>,
  \<open>c\<close>. In no run does a task of the collection have an empty string among its tags.
\<close>

theorem stored_tags:
  "(trim (newTodo s) \<noteq> [] \<longrightarrow>
      tags (last (collection (addTodo now s))) =
        Some (filter (\<lambda>p. p \<noteq> []) (map trim (split 0x002C (tags_st s))))) \<and>
   join 0x002C (split 0x002C (tags_st s)) = tags_st s \<and>
   (\<forall>p \<in> set (split 0x002C (tags_st s)). 0x002C \<notin> set p) \<and>
   parse_tags (js ''a, b ,, c'') = [js ''a'', js ''b'', js ''c''] \<and>
   (\<forall>t \<in> set (collection (run evs)). \<forall>ts. tags t = Some ts \<longrightarrow> [] \<notin> set ts)"
proof -
  have stored: "tags (last (collection (addTodo now s))) =
      Some (filter (\<lambda>p. p \<noteq> []) (map trim (split 0x002C (tags_st s))))"
    if "trim (newTodo s) \<noteq> []"
    using that by (simp add: collection_addTodo parse_tags_def)
  have never_empty: "\<forall>t \<in> set (collection (run evs)). \<forall>ts. tags t = Some ts \<longrightarrow> [] \<notin> set ts"
    by (rule tasks_run) (simp_all add: parse_tags_no_empty)
  from stored never_empty show ?thesis
    by (simp add: join_split split_no_sep parse_tags_example)
qed

theorem stored_tags_witness:
  "trim (newTodo (run [SetNewTodo (js ''Buy milk''), SetTags (js ''a, b ,, c'')])) \<noteq> [] \<and>
   tags (last (collection (addTodo 1700000000000
     (run [SetNewTodo (js ''Buy milk''), SetTags (js ''a, b ,, c'')])))) =
     Some [js ''a'', js ''b'', js ''c''] \<and>
   buy_milk \<in> set (collection (run three_tasks)) \<and>
   tags buy_milk = Some [js ''Urgent'', js ''home''] \<and>
   [] \<notin> set [js ''Urgent'', js ''home'']"
proof -
  let ?s = "run [SetNewTodo (js ''Buy milk''), SetTags (js ''a, b ,, c'')]"
  have filled: "trim (newTodo ?s) \<noteq> []"
    by (simp add: run_def trim_example) (simp add: js_def)
  have raw: "tags_st ?s = js ''a, b ,, c''"
    by (simp add: run_def)
  have member: "buy_milk \<in> set (collection (run three_tasks))"
    by (simp add: collection_three_tasks)
  have its_tags: "tags buy_milk = Some [js ''Urgent'', js ''home'']"
    by (simp add: buy_milk_def)
  from stored_tags [of ?s 1700000000000 three_tasks] filled
  have "tags (last (collection (addTodo 1700000000000 ?s))) =
      Some (filter (\<lambda>p. p \<noteq> []) (map trim (split 0x002C (js ''a, b ,, c''))))"
    and "\<forall>t \<in> set (collection (run three_tasks)). \<forall>ts. tags t = Some ts \<longrightarrow> [] \<notin> set ts"
    unfolding raw by blast+
  with member its_tags filled show ?thesis
    using parse_tags_example by (auto simp: parse_tags_def)
qed

text \<open>
  C10. The task stored by a successful \<open>addTodo\<close> has as text the text field as it
  is, white space at its ends included; trimming is applied in the emptiness test only.
  So the text of every task in every run is non-empty after trimming. Submitting the
  field \<open>"  Buy milk "\<close> stores that very string.
\<close>

theorem stored_text_is_raw:
  "(trim (newTodo s) \<noteq> [] \<longrightarrow> text_todo (last (collection (addTodo now s))) = newTodo s) \<and>
   (\<forall>t \<in> set (collection (run evs)). trim (text_todo t) \<noteq> []) \<and>
   map text_todo (collection (run [SetNewTodo (js ''  Buy milk ''), Submit now])) =
     [js ''  Buy milk ''] \<and>
   js ''  Buy milk '' \<noteq> trim (js ''  Buy milk '')"
proof -
  have stored: "text_todo (last (collection (addTodo now s))) = newTodo s"
    if "trim (newTodo s) \<noteq> []"
    using that by (simp add: collection_addTodo)
  have kept: "\<forall>t \<in> set (collection (run evs)). trim (text_todo t) \<noteq> []"
    by (rule tasks_run) simp_all
  have "trim (newTodo (init\<lparr>newTodo := js ''  Buy milk ''\<rparr>)) \<noteq> []"
    by (simp add: trim_buy_milk) (simp add: js_def)
  then have "collection (addTodo now (init\<lparr>newTodo := js ''  Buy milk ''\<rparr>)) =
      collection (init\<lparr>newTodo := js ''  Buy milk ''\<rparr>) @
      [\<lparr> id_todo = number_toString now, text_todo = js ''  Buy milk '', completed = False,
         priority = medium, category = js ''personal'', dueDate = None,
         notes_todo = Some [], tags = Some (parse_tags []) \<rparr>]"
    by (simp add: collection_addTodo) (simp add: init_def)
  then have example: "map text_todo (collection (run [SetNewTodo (js ''  Buy milk ''), Submit now])) =
      [js ''  Buy milk '']"
    by (simp add: run_def) (simp add: collection_def init_def)
  have "js ''  Buy milk '' \<noteq> trim (js ''  Buy milk '')"
    unfolding trim_buy_milk by (simp add: js_def)
  with stored kept example show ?thesis
    by blast
qed

theorem stored_text_is_raw_witness:
  "trim (newTodo (run [SetNewTodo (js ''  Buy milk '')])) \<noteq> [] \<and>
   text_todo (last (collection (addTodo 1700000000000 (run [SetNewTodo (js ''  Buy milk '')])))) =
     js ''  Buy milk '' \<and>
   buy_milk \<in> set (collection (run three_tasks)) \<and>
   trim (text_todo buy_milk) \<noteq> []"
proof -
  let ?s = "run [SetNewTodo (js ''  Buy milk '')]"
  have filled: "trim (newTodo ?s) \<noteq> []"
    by (simp add: run_def trim_buy_milk) (simp add: js_def)
  have raw: "newTodo ?s = js ''  Buy milk ''"
    by (simp add: run_def)
  have member: "buy_milk \<in> set (collection (run three_tasks))"
    by (simp add: collection_three_tasks)
  from stored_text_is_raw [of ?s 1700000000000 three_tasks] filled
  have "text_todo (last (collection (addTodo 1700000000000 ?s))) = newTodo ?s"
    and "\<forall>t \<in> set (collection (run three_tasks)). trim (text_todo t) \<noteq> []"
    by blast+
  with member filled raw show ?thesis
    by auto
qed

end
